theory Spec2Isabelle
  imports Complex_Main "HOL-Library.Word" "HOL-Library.Sublist"
begin

section \<open>JavaScript values\<close>

text \<open>
  A JavaScript string is a sequence of UTF-16 code units; \<open>length\<close>, \<open>slice\<close>,
  \<open>includes\<close> and \<open>trim\<close> all work on code units. String literals of the source are
  ASCII and are written through \<open>js\<close>.
\<close>

type_synonym jsstring = "16 word list"

definition js :: "string \<Rightarrow> jsstring" where
  "js s = map of_char s"

text \<open>\<open>s.slice(a, b)\<close> for non-negative integer arguments.\<close>

definition slice :: "jsstring \<Rightarrow> nat \<Rightarrow> nat \<Rightarrow> jsstring" where
  "slice s a b = take (b - a) (drop a s)"

text \<open>\<open>s.includes(k)\<close>: the code units of \<open>k\<close> occur contiguously in \<open>s\<close>.\<close>

fun js_includes :: "jsstring \<Rightarrow> jsstring \<Rightarrow> bool" where
  "js_includes [] k = (k = [])"
| "js_includes (c # s) k = (prefix k (c # s) \<or> js_includes s k)"


text \<open>
  A JavaScript number as far as the settings form needs it: \<open>NaN\<close>, the two infinities
  and the finite values (\<open>-0\<close> and \<open>0\<close> are both \<open>Num 0\<close>). \<open>a || b\<close> on numbers yields
  \<open>b\<close> when \<open>a\<close> is falsy, that is \<open>0\<close> or \<open>NaN\<close>.
\<close>

datatype jsnum = NaN | Num real | PosInfinity | NegInfinity

definition num_falsy :: "jsnum \<Rightarrow> bool" where
  "num_falsy n = (n = NaN \<or> n = Num 0)"

definition num_or :: "jsnum \<Rightarrow> jsnum \<Rightarrow> jsnum" where
  "num_or a b = (if num_falsy a then b else a)"

section \<open>The application store (store.ts)\<close>

datatype Source = text_insight | vision_capture

datatype SectionKey = original | wordByWord | structure_key | translation | colloquial | simplified

type_synonym Sections = "SectionKey \<rightharpoonup> jsstring"

record AiInferredRange =
  r_start :: nat
  r_end :: nat

record StreamContent =
  source :: Source
  sections :: Sections
  content_aiInferredRanges :: "AiInferredRange list option"
  isStreaming :: bool

text \<open>\<open>Partial<StreamContent>\<close>: every field may be absent.\<close>

record StreamContentPatch =
  patch_source :: "Source option"
  patch_sections :: "Sections option"
  patch_aiInferredRanges :: "AiInferredRange list option"
  patch_isStreaming :: "bool option"

text \<open>
  \<open>AudioPlayerState\<close> as it exists at run time. \<open>updateAudioState\<close> spreads a
  \<open>Partial<AudioPlayerState>\<close> over the previous state, which may be \<open>null\<close>, so a field
  can be missing (\<open>None\<close>); a partial update has the same shape.
\<close>

record AudioPlayerState =
  audioPath :: "jsstring option"
  isPlaying :: "bool option"
  audio_progress :: "real option"
  duration :: "real option"
  isSaved :: "bool option"

record Position =
  pos_x :: real
  pos_y :: real

record FloatingWindowState =
  visible :: bool
  pinned :: bool
  position :: Position
  currentContent :: "StreamContent option"
  audioState :: "AudioPlayerState option"

record AppSettings =
  aiCompletionEnabled :: bool
  cacheMaxSizeMb :: jsnum
  cacheAutoCleanDays :: jsnum
  retryCount :: jsnum
  shortcutCapture :: jsstring
  settings_locale :: jsstring

text \<open>\<open>Partial<AppSettings>\<close>.\<close>

record AppSettingsPatch =
  patch_aiCompletionEnabled :: "bool option"
  patch_cacheMaxSizeMb :: "jsnum option"
  patch_cacheAutoCleanDays :: "jsnum option"
  patch_retryCount :: "jsnum option"
  patch_shortcutCapture :: "jsstring option"
  patch_locale :: "jsstring option"

datatype Stage = idle | script_generating | script_done | tts_progress | done_stage | error_stage

record PodcastProgress =
  stage :: Stage
  podcast_progress :: real
  scriptPreview :: "jsstring option"

record AppState =
  floatingWindow :: FloatingWindowState
  settings :: AppSettings
  app_locale :: jsstring
  errorMessage :: "jsstring option"
  podcastProgress :: PodcastProgress

definition defaultSettings :: AppSettings where
  "defaultSettings =
     \<lparr>aiCompletionEnabled = True, cacheMaxSizeMb = Num 500, cacheAutoCleanDays = Num 30,
      retryCount = Num 3, shortcutCapture = js ''CommandOrControl+Shift+S'',
      settings_locale = js ''zh-CN''\<rparr>"

definition initialFloatingWindow :: FloatingWindowState where
  "initialFloatingWindow =
     \<lparr>visible = False, pinned = False, position = \<lparr>pos_x = 0, pos_y = 0\<rparr>,
      currentContent = None, audioState = None\<rparr>"

definition initialAppState :: AppState where
  "initialAppState =
     \<lparr>floatingWindow = initialFloatingWindow, settings = defaultSettings,
      app_locale = js ''zh-CN'', errorMessage = None,
      podcastProgress = \<lparr>stage = idle, podcast_progress = 0, scriptPreview = None\<rparr>\<rparr>"

definition showWindow :: "Position option \<Rightarrow> AppState \<Rightarrow> AppState" where
  "showWindow pos state =
     state\<lparr>floatingWindow :=
       (case pos of
          None \<Rightarrow> (floatingWindow state)\<lparr>visible := True\<rparr>
        | Some p \<Rightarrow> (floatingWindow state)\<lparr>visible := True, position := p\<rparr>)\<rparr>"

definition hideWindow :: "AppState \<Rightarrow> AppState" where
  "hideWindow state = state\<lparr>floatingWindow := (floatingWindow state)\<lparr>visible := False\<rparr>\<rparr>"

definition togglePin :: "AppState \<Rightarrow> AppState" where
  "togglePin state =
     state\<lparr>floatingWindow :=
       (floatingWindow state)\<lparr>pinned := \<not> pinned (floatingWindow state)\<rparr>\<rparr>"

text \<open>
  \<open>handleBlur\<close> of the floating window (the focus-lost handler): it hides the window
  only when the window is not pinned. The same guard is written out in the store test.
\<close>

definition handleBlur :: "AppState \<Rightarrow> AppState" where
  "handleBlur state = (if \<not> pinned (floatingWindow state) then hideWindow state else state)"

datatype Action = Show | Blur | TogglePin

fun store_step :: "AppState \<Rightarrow> Action \<Rightarrow> AppState" where
  "store_step s Show = showWindow None s"
| "store_step s Blur = handleBlur s"
| "store_step s TogglePin = togglePin s"

definition store_run :: "Action list \<Rightarrow> AppState \<Rightarrow> AppState" where
  "store_run acts s = foldl store_step s acts"

text \<open>\<open>{ ...a, ...b }\<close> on one field: the field of \<open>b\<close> wins when it is present.\<close>

definition spread :: "'a option \<Rightarrow> 'a option \<Rightarrow> 'a option" where
  "spread a b = (case b of None \<Rightarrow> a | Some v \<Rightarrow> Some v)"




definition spreadSettings :: "AppSettings \<Rightarrow> AppSettingsPatch \<Rightarrow> AppSettings" where
  "spreadSettings a b =
     \<lparr>aiCompletionEnabled = (case patch_aiCompletionEnabled b of None \<Rightarrow> aiCompletionEnabled a | Some v \<Rightarrow> v),
      cacheMaxSizeMb = (case patch_cacheMaxSizeMb b of None \<Rightarrow> cacheMaxSizeMb a | Some v \<Rightarrow> v),
      cacheAutoCleanDays = (case patch_cacheAutoCleanDays b of None \<Rightarrow> cacheAutoCleanDays a | Some v \<Rightarrow> v),
      retryCount = (case patch_retryCount b of None \<Rightarrow> retryCount a | Some v \<Rightarrow> v),
      shortcutCapture = (case patch_shortcutCapture b of None \<Rightarrow> shortcutCapture a | Some v \<Rightarrow> v),
      settings_locale = (case patch_locale b of None \<Rightarrow> settings_locale a | Some v \<Rightarrow> v)\<rparr>"

definition updateSettings :: "AppSettingsPatch \<Rightarrow> AppState \<Rightarrow> AppState" where
  "updateSettings patch state = state\<lparr>settings := spreadSettings (settings state) patch\<rparr>"

section \<open>Calls to the backend\<close>

text \<open>
  The components reach the backend through \<open>invoke(command, arguments)\<close>. The model
  records every call in a log, in order; whether a call succeeds is an input of the
  handler that makes it.
\<close>

record Region =
  region_x :: real
  region_y :: real
  region_width :: real
  region_height :: real

datatype Command =
    save_podcast "jsstring option"
  | process_capture Region bool
  | save_query_record jsstring Source "jsstring option" Sections
  | update_settings AppSettings
  | update_capture_shortcut jsstring

text \<open>
  The store together with the state the components keep beside it: the log of backend
  calls, the language reference and the two closure variables of the floating window's
  listeners, and the settings page's local copy of the settings.
\<close>

record World =
  store :: AppState
  invoked :: "Command list"
  detectedLanguageRef :: "jsstring option"
  accumulatedText :: jsstring
  aiRanges :: "AiInferredRange list"
  page_settings :: AppSettings

definition initialWorld :: World where
  "initialWorld =
     \<lparr>store = initialAppState, invoked = [], detectedLanguageRef = None,
      accumulatedText = [], aiRanges = [], page_settings = defaultSettings\<rparr>"

section \<open>The audio player (AudioPlayer.tsx)\<close>









section \<open>The settings page (SettingsPage.tsx)\<close>

definition noSettingsFields :: AppSettingsPatch where
  "noSettingsFields =
     \<lparr>patch_aiCompletionEnabled = None, patch_cacheMaxSizeMb = None,
      patch_cacheAutoCleanDays = None, patch_retryCount = None,
      patch_shortcutCapture = None, patch_locale = None\<rparr>"

text \<open>
  \<open>save(patch)\<close>; \<open>ok\<close> tells whether the \<open>update_settings\<close> call succeeds (the shortcut
  call is made only after it, inside the same \<open>try\<close>).
\<close>

definition save :: "bool \<Rightarrow> AppSettingsPatch \<Rightarrow> World \<Rightarrow> World" where
  "save ok patch w =
     (let next = spreadSettings (page_settings w) patch;
          w1 = w\<lparr>page_settings := next, store := updateSettings patch (store w),
                 invoked := invoked w @ [update_settings next]\<rparr>
      in case patch_shortcutCapture patch of
           None \<Rightarrow> w1
         | Some shortcut \<Rightarrow>
             if ok \<and> shortcut \<noteq> []
             then w1\<lparr>invoked := invoked w1 @ [update_capture_shortcut shortcut]\<rparr>
             else w1)"

text \<open>
  The \<open>onChange\<close> handler of the retry-count input:
  \<open>save({ retryCount: Number(e.target.value) || 3 })\<close>. JavaScript's \<open>Number\<close> conversion
  is a parameter.
\<close>

definition retryCount_onChange ::
  "(jsstring \<Rightarrow> jsnum) \<Rightarrow> bool \<Rightarrow> jsstring \<Rightarrow> World \<Rightarrow> World" where
  "retryCount_onChange Number ok v w =
     save ok (noSettingsFields\<lparr>patch_retryCount := Some (num_or (Number v) (Num 3))\<rparr>) w"

section \<open>The capture overlay (CaptureOverlay.tsx)\<close>

text \<open>
  Mouse coordinates and the device pixel ratio are finite numbers; they are modelled as
  reals, so the arithmetic of the model is exact.
\<close>

record SelectionRect =
  startX :: real
  startY :: real
  endX :: real
  endY :: real

record Overlay =
  selection :: "SelectionRect option"
  isDragging :: bool
  overlay_invoked :: "Command list"

definition idleOverlay :: Overlay where
  "idleOverlay = \<lparr>selection = None, isDragging = False, overlay_invoked = []\<rparr>"

definition handleMouseDown :: "real \<Rightarrow> real \<Rightarrow> Overlay \<Rightarrow> Overlay" where
  "handleMouseDown clientX clientY ov =
     ov\<lparr>isDragging := True,
        selection := Some \<lparr>startX = clientX, startY = clientY, endX = clientX, endY = clientY\<rparr>\<rparr>"

definition handleMouseMove :: "real \<Rightarrow> real \<Rightarrow> Overlay \<Rightarrow> Overlay" where
  "handleMouseMove clientX clientY ov =
     (if \<not> isDragging ov \<or> selection ov = None then ov
      else ov\<lparr>selection := map_option (\<lambda>prev. prev\<lparr>endX := clientX, endY := clientY\<rparr>) (selection ov)\<rparr>)"

text \<open>
  \<open>handleMouseUp\<close>; \<open>devicePixelRatio\<close> is \<open>window.devicePixelRatio\<close>, replaced by 1 when
  it is falsy.
\<close>

definition handleMouseUp :: "real \<Rightarrow> Overlay \<Rightarrow> Overlay" where
  "handleMouseUp devicePixelRatio ov =
     (case selection ov of
        None \<Rightarrow> ov
      | Some sel \<Rightarrow>
          if \<not> isDragging ov then ov
          else
            let ov1 = ov\<lparr>isDragging := False\<rparr>;
                x = min (startX sel) (endX sel);
                y = min (startY sel) (endY sel);
                w = \<bar>endX sel - startX sel\<bar>;
                h = \<bar>endY sel - startY sel\<bar>
            in if w < 10 \<or> h < 10 then ov1\<lparr>selection := None\<rparr>
               else
                 let dpr = (if devicePixelRatio = 0 then 1 else devicePixelRatio);
                     region = \<lparr>region_x = x * dpr, region_y = y * dpr,
                               region_width = w * dpr, region_height = h * dpr\<rparr>
                 in ov1\<lparr>overlay_invoked := overlay_invoked ov1 @ [process_capture region True]\<rparr>)"

text \<open>The number of \<open>process_capture\<close> calls in a log.\<close>

definition is_process_capture :: "Command \<Rightarrow> bool" where
  "is_process_capture c = (case c of process_capture r a \<Rightarrow> True | _ \<Rightarrow> False)"

definition capture_calls :: "Command list \<Rightarrow> nat" where
  "capture_calls cs = length (filter is_process_capture cs)"

section \<open>Provenance merging (property test 4)\<close>

text \<open>
  A range \<open>{ start, end }\<close> is an \<open>AiInferredRange\<close> with the fields \<open>r_start\<close> and \<open>r_end\<close>;
  a segment's \<open>text\<close> is the field \<open>text_of\<close>.
\<close>

record Segment =
  text_of :: jsstring
  isAiInferred :: bool

record RecognitionResult =
  mergedText :: jsstring
  aiInferredRanges :: "AiInferredRange list"
  ocrRanges :: "AiInferredRange list"

text \<open>
  The loop of \<open>mergeSegments\<close>, with its four variables \<open>offset\<close>, \<open>aiInferredRanges\<close>,
  \<open>ocrRanges\<close> and \<open>mergedText\<close> as accumulators.
\<close>

fun mergeLoop ::
  "Segment list \<Rightarrow> nat \<Rightarrow> AiInferredRange list \<Rightarrow> AiInferredRange list \<Rightarrow> jsstring
     \<Rightarrow> RecognitionResult" where
  "mergeLoop [] offset ai ocr merged =
     \<lparr>mergedText = merged, aiInferredRanges = ai, ocrRanges = ocr\<rparr>"
| "mergeLoop (seg # segments) offset ai ocr merged =
     (let start = offset;
          endOffset = offset + length (text_of seg)
      in mergeLoop segments endOffset
           (if length (text_of seg) > 0 \<and> isAiInferred seg
            then ai @ [\<lparr>r_start = start, r_end = endOffset\<rparr>] else ai)
           (if length (text_of seg) > 0 \<and> \<not> isAiInferred seg
            then ocr @ [\<lparr>r_start = start, r_end = endOffset\<rparr>] else ocr)
           (merged @ text_of seg))"

definition mergeSegments :: "Segment list \<Rightarrow> RecognitionResult" where
  "mergeSegments segments = mergeLoop segments 0 [] [] []"

text \<open>
  The ranges the loop records for the segments of one origin (\<open>b\<close>: inferred or not),
  from a given offset on.
\<close>

fun segmentRanges :: "bool \<Rightarrow> nat \<Rightarrow> Segment list \<Rightarrow> AiInferredRange list" where
  "segmentRanges b offset [] = []"
| "segmentRanges b offset (seg # segments) =
     (if length (text_of seg) > 0 \<and> isAiInferred seg = b
      then [\<lparr>r_start = offset, r_end = offset + length (text_of seg)\<rparr>] else [])
     @ segmentRanges b (offset + length (text_of seg)) segments"

definition rangesOverlap :: "AiInferredRange \<Rightarrow> AiInferredRange \<Rightarrow> bool" where
  "rangesOverlap a b = (r_start a < r_end b \<and> r_start b < r_end a)"

text \<open>Position \<open>i\<close> of the text lies in the half-open range \<open>r\<close>.\<close>

definition covers :: "AiInferredRange \<Rightarrow> nat \<Rightarrow> bool" where
  "covers r i = (r_start r \<le> i \<and> i < r_end r)"

text \<open>The substring of a text at a range, as the test reads it: \<open>text.slice(r.start, r.end)\<close>.\<close>

definition slice_at :: "jsstring \<Rightarrow> AiInferredRange \<Rightarrow> jsstring" where
  "slice_at s r = slice s (r_start r) (r_end r)"

section \<open>Section completeness (property test 2)\<close>

definition REQUIRED_SECTIONS :: "SectionKey list" where
  "REQUIRED_SECTIONS = [original, wordByWord, structure_key, translation, colloquial, simplified]"

text \<open>
  The code units \<open>String.prototype.trim\<close> strips: ECMAScript's WhiteSpace (tab, vertical
  tab, form feed, space, no-break space, U+FEFF and the space separators) and
  LineTerminator (line feed, carriage return, U+2028, U+2029).
\<close>

definition is_white_space :: "16 word \<Rightarrow> bool" where
  "is_white_space c =
     (c = 0x9 \<or> c = 0xA \<or> c = 0xB \<or> c = 0xC \<or> c = 0xD \<or> c = 0x20 \<or> c = 0xA0
      \<or> c = 0x1680 \<or> (0x2000 \<le> c \<and> c \<le> 0x200A) \<or> c = 0x2028 \<or> c = 0x2029
      \<or> c = 0x202F \<or> c = 0x205F \<or> c = 0x3000 \<or> c = 0xFEFF)"

definition trim :: "jsstring \<Rightarrow> jsstring" where
  "trim s = rev (dropWhile is_white_space (rev (dropWhile is_white_space s)))"

text \<open>
  \<open>validateSectionsComplete\<close>: a missing key reads as \<open>undefined\<close>, whose \<open>typeof\<close> is not
  \<open>"string"\<close>.
\<close>

definition validateSectionsComplete :: "Sections \<Rightarrow> bool" where
  "validateSectionsComplete sects =
     list_all (\<lambda>key. case sects key of None \<Rightarrow> False | Some v \<Rightarrow> length (trim v) > 0)
       REQUIRED_SECTIONS"

text \<open>A blank string: empty, or white space only.\<close>

definition blank :: "jsstring \<Rightarrow> bool" where
  "blank v = list_all is_white_space v"

section \<open>Error messages (FloatingWindow.tsx)\<close>

text \<open>
  The error identifiers of the backend (the variants of \<open>VeyaError\<close> in the design), in
  the order of \<open>errorKeyMap\<close>. The specification calls them InvalidCredential,
  InsufficientQuota, NetworkTimeout, ServiceUnavailable, RecognitionFailed,
  SynthesisFailed, StorageFailure and PermissionDenied.
\<close>

datatype ErrorKind =
  InvalidApiKey | InsufficientBalance | NetworkTimeout | ModelUnavailable
  | OcrFailed | TtsFailed | StorageError | PermissionDenied

definition all_kinds :: "ErrorKind list" where
  "all_kinds =
     [InvalidApiKey, InsufficientBalance, NetworkTimeout, ModelUnavailable,
      OcrFailed, TtsFailed, StorageError, PermissionDenied]"

fun kind_identifier :: "ErrorKind \<Rightarrow> jsstring" where
  "kind_identifier InvalidApiKey = js ''InvalidApiKey''"
| "kind_identifier InsufficientBalance = js ''InsufficientBalance''"
| "kind_identifier NetworkTimeout = js ''NetworkTimeout''"
| "kind_identifier ModelUnavailable = js ''ModelUnavailable''"
| "kind_identifier OcrFailed = js ''OcrFailed''"
| "kind_identifier TtsFailed = js ''TtsFailed''"
| "kind_identifier StorageError = js ''StorageError''"
| "kind_identifier PermissionDenied = js ''PermissionDenied''"

fun message_key :: "ErrorKind \<Rightarrow> jsstring" where
  "message_key InvalidApiKey = js ''errors.invalidApiKey''"
| "message_key InsufficientBalance = js ''errors.insufficientBalance''"
| "message_key NetworkTimeout = js ''errors.networkTimeout''"
| "message_key ModelUnavailable = js ''errors.modelUnavailable''"
| "message_key OcrFailed = js ''errors.ocrFailed''"
| "message_key TtsFailed = js ''errors.ttsFailed''"
| "message_key StorageError = js ''errors.storageError''"
| "message_key PermissionDenied = js ''errors.permissionDenied''"

text \<open>\<open>errorKeyMap\<close>; \<open>Object.entries\<close> lists its entries in the order they are written.\<close>

definition errorKeyMap :: "(jsstring \<times> jsstring) list" where
  "errorKeyMap =
     [(js ''InvalidApiKey'', js ''errors.invalidApiKey''),
      (js ''InsufficientBalance'', js ''errors.insufficientBalance''),
      (js ''NetworkTimeout'', js ''errors.networkTimeout''),
      (js ''ModelUnavailable'', js ''errors.modelUnavailable''),
      (js ''OcrFailed'', js ''errors.ocrFailed''),
      (js ''TtsFailed'', js ''errors.ttsFailed''),
      (js ''StorageError'', js ''errors.storageError''),
      (js ''PermissionDenied'', js ''errors.permissionDenied'')]"

text \<open>The \<open>for\<close> loop of \<open>resolveErrorMessage\<close>: the first entry whose key occurs in the content.\<close>

fun firstMatch :: "(jsstring \<times> jsstring) list \<Rightarrow> jsstring \<Rightarrow> jsstring option" where
  "firstMatch [] content = None"
| "firstMatch ((key, i18nKey) # entries) content =
     (if js_includes content key then Some i18nKey else firstMatch entries content)"

text \<open>\<open>t\<close> is the translation function of the interface language.\<close>

definition resolveErrorMessage :: "jsstring option \<Rightarrow> (jsstring \<Rightarrow> jsstring) \<Rightarrow> jsstring" where
  "resolveErrorMessage content t =
     (case content of
        None \<Rightarrow> t (js ''errors.networkTimeout'')
      | Some c \<Rightarrow>
          if c = [] then t (js ''errors.networkTimeout'')
          else (case firstMatch errorKeyMap c of
                  Some i18nKey \<Rightarrow> t i18nKey
                | None \<Rightarrow> c))"

text \<open>
  A sample translation function: English messages for three of the error keys, and the
  key itself for any other key (what the translation library does for a key it has no
  entry for).
\<close>

definition t_sample :: "jsstring \<Rightarrow> jsstring" where
  "t_sample key =
     (if key = js ''errors.invalidApiKey'' then js ''Invalid API key''
      else if key = js ''errors.networkTimeout'' then js ''Network timeout''
      else if key = js ''errors.permissionDenied'' then js ''Permission denied''
      else key)"

text \<open>The kinds listed before a kind in the table.\<close>

definition earlier :: "ErrorKind \<Rightarrow> ErrorKind list" where
  "earlier k = takeWhile (\<lambda>k'. k' \<noteq> k) all_kinds"

section \<open>The floating window's listeners (FloatingWindow.tsx)\<close>

definition clearContent :: "AppState \<Rightarrow> AppState" where
  "clearContent state =
     state\<lparr>floatingWindow := (floatingWindow state)\<lparr>currentContent := None, audioState := None\<rparr>\<rparr>"

definition clearError :: "AppState \<Rightarrow> AppState" where
  "clearError state = state\<lparr>errorMessage := None\<rparr>"

definition setError :: "jsstring \<Rightarrow> AppState \<Rightarrow> AppState" where
  "setError message state = state\<lparr>errorMessage := Some message\<rparr>"

definition noContentFields :: StreamContentPatch where
  "noContentFields =
     \<lparr>patch_source = None, patch_sections = None, patch_aiInferredRanges = None,
      patch_isStreaming = None\<rparr>"

definition spreadContent :: "StreamContent \<Rightarrow> StreamContentPatch \<Rightarrow> StreamContent" where
  "spreadContent a b =
     \<lparr>source = (case patch_source b of None \<Rightarrow> source a | Some v \<Rightarrow> v),
      sections = (case patch_sections b of None \<Rightarrow> sections a | Some v \<Rightarrow> v),
      content_aiInferredRanges = spread (content_aiInferredRanges a) (patch_aiInferredRanges b),
      isStreaming = (case patch_isStreaming b of None \<Rightarrow> isStreaming a | Some v \<Rightarrow> v)\<rparr>"

definition updateContent :: "StreamContentPatch \<Rightarrow> AppState \<Rightarrow> AppState" where
  "updateContent content state =
     state\<lparr>floatingWindow := (floatingWindow state)\<lparr>currentContent :=
       Some (spreadContent
         (case currentContent (floatingWindow state) of
            Some current \<Rightarrow> current
          | None \<Rightarrow> \<lparr>source = text_insight, sections = Map.empty,
                      content_aiInferredRanges = None, isStreaming = True\<rparr>)
         content)\<rparr>\<rparr>"

definition setStreamingSection :: "SectionKey \<Rightarrow> jsstring \<Rightarrow> AppState \<Rightarrow> AppState" where
  "setStreamingSection section_key val state =
     (case currentContent (floatingWindow state) of
        None \<Rightarrow> state
      | Some current \<Rightarrow>
          state\<lparr>floatingWindow := (floatingWindow state)\<lparr>currentContent :=
            Some (current\<lparr>sections := (sections current)(section_key \<mapsto> val)\<rparr>)\<rparr>\<rparr>)"

definition saveQueryRecord :: "StreamContent \<Rightarrow> jsstring option \<Rightarrow> World \<Rightarrow> World" where
  "saveQueryRecord contentSnapshot detectedLanguage w =
     (let inputText = (case sections contentSnapshot original of None \<Rightarrow> [] | Some v \<Rightarrow> v)
      in if inputText = [] then w
         else w\<lparr>invoked := invoked w @
                  [save_query_record inputText (source contentSnapshot) detectedLanguage
                     (sections contentSnapshot)]\<rparr>)"

text \<open>The part the \<open>done\<close> cases of both listeners share.\<close>

definition finishStream :: "jsstring option \<Rightarrow> World \<Rightarrow> World" where
  "finishStream detectedLanguage w =
     (let w1 = w\<lparr>store := updateContent (noContentFields\<lparr>patch_isStreaming := Some False\<rparr>) (store w)\<rparr>
      in case currentContent (floatingWindow (store w1)) of
           None \<Rightarrow> w1
         | Some snap \<Rightarrow> saveQueryRecord snap detectedLanguage w1)"

definition failStream :: "(jsstring \<Rightarrow> jsstring) \<Rightarrow> jsstring option \<Rightarrow> World \<Rightarrow> World" where
  "failStream t content w =
     w\<lparr>store := setError (resolveErrorMessage content t)
        (updateContent (noContentFields\<lparr>patch_isStreaming := Some False\<rparr>) (store w))\<rparr>"

datatype TextInsightChunk =
    ti_start "jsstring option"
  | ti_delta "SectionKey option" "jsstring option"
  | ti_done
  | ti_error "jsstring option"

fun textInsightListener ::
  "(jsstring \<Rightarrow> jsstring) \<Rightarrow> World \<Rightarrow> TextInsightChunk \<Rightarrow> World" where
  "textInsightListener t w (ti_start language) =
     w\<lparr>detectedLanguageRef := language,
       store := showWindow None
         (updateContent
            \<lparr>patch_source = Some text_insight, patch_sections = Some Map.empty,
             patch_aiInferredRanges = None, patch_isStreaming = Some True\<rparr>
            (clearError (clearContent (store w))))\<rparr>"
| "textInsightListener t w (ti_delta section_key content) =
     (case section_key of
        None \<Rightarrow> w
      | Some k \<Rightarrow>
          (case content of
             None \<Rightarrow> w
           | Some c \<Rightarrow> if c = [] then w else w\<lparr>store := setStreamingSection k c (store w)\<rparr>))"
| "textInsightListener t w ti_done = finishStream (detectedLanguageRef w) w"
| "textInsightListener t w (ti_error content) = failStream t content w"

datatype VisionCaptureChunk =
    vc_ocr_result "jsstring option"
  | vc_ai_completion "jsstring option"
  | vc_analysis_delta "jsstring option"
  | vc_done
  | vc_error "jsstring option"

fun visionCaptureListener ::
  "(jsstring \<Rightarrow> jsstring) \<Rightarrow> World \<Rightarrow> VisionCaptureChunk \<Rightarrow> World" where
  "visionCaptureListener t w (vc_ocr_result content) =
     (let acc = (case content of None \<Rightarrow> [] | Some c \<Rightarrow> c)
      in w\<lparr>accumulatedText := acc, aiRanges := [],
           store := showWindow None
             (updateContent
                \<lparr>patch_source = Some vision_capture,
                 patch_sections = Some [original \<mapsto> acc],
                 patch_aiInferredRanges = None, patch_isStreaming = Some True\<rparr>
                (clearError (clearContent (store w))))\<rparr>)"
| "visionCaptureListener t w (vc_ai_completion content) =
     (case content of
        None \<Rightarrow> w
      | Some c \<Rightarrow>
          if c = [] then w
          else
            let start = length (accumulatedText w);
                acc = accumulatedText w @ c;
                ranges = aiRanges w @ [\<lparr>r_start = start, r_end = length acc\<rparr>]
            in w\<lparr>accumulatedText := acc, aiRanges := ranges,
                 store := updateContent
                   (noContentFields\<lparr>patch_sections := Some [original \<mapsto> acc],
                                    patch_aiInferredRanges := Some ranges\<rparr>)
                   (store w)\<rparr>)"
| "visionCaptureListener t w (vc_analysis_delta content) =
     (case content of
        None \<Rightarrow> w
      | Some c \<Rightarrow> if c = [] then w else w\<lparr>store := setStreamingSection translation c (store w)\<rparr>)"
| "visionCaptureListener t w vc_done = finishStream None w"
| "visionCaptureListener t w (vc_error content) = failStream t content w"

text \<open>What the floating window shows: the current content's sections, ranges and state.\<close>

definition shownSections :: "World \<Rightarrow> Sections" where
  "shownSections w =
     (case currentContent (floatingWindow (store w)) of
        None \<Rightarrow> Map.empty
      | Some c \<Rightarrow> sections c)"

definition shownRanges :: "World \<Rightarrow> AiInferredRange list" where
  "shownRanges w =
     (case currentContent (floatingWindow (store w)) of
        None \<Rightarrow> []
      | Some c \<Rightarrow> (case content_aiInferredRanges c of None \<Rightarrow> [] | Some rs \<Rightarrow> rs))"

definition streamCompleted :: "World \<Rightarrow> bool" where
  "streamCompleted w =
     (case currentContent (floatingWindow (store w)) of
        None \<Rightarrow> False
      | Some c \<Rightarrow> \<not> isStreaming c)"

text \<open>The non-empty fragments the \<open>ai_completion\<close> events of a sequence carry, in order.\<close>

fun aiFragments :: "VisionCaptureChunk list \<Rightarrow> jsstring list" where
  "aiFragments [] = []"
| "aiFragments (vc_ai_completion (Some c) # evs) =
     (if c = [] then aiFragments evs else c # aiFragments evs)"
| "aiFragments (ev # evs) = aiFragments evs"

text \<open>The ranges the listener records for a list of appended fragments.\<close>

fun fragmentRanges :: "nat \<Rightarrow> jsstring list \<Rightarrow> AiInferredRange list" where
  "fragmentRanges offset [] = []"
| "fragmentRanges offset (f # fs) =
     \<lparr>r_start = offset, r_end = offset + length f\<rparr> # fragmentRanges (offset + length f) fs"

fun is_ocr_result :: "VisionCaptureChunk \<Rightarrow> bool" where
  "is_ocr_result (vc_ocr_result content) = True"
| "is_ocr_result ev = False"

fun is_ai_completion :: "VisionCaptureChunk \<Rightarrow> bool" where
  "is_ai_completion (vc_ai_completion content) = True"
| "is_ai_completion ev = False"

definition textInsightRun ::
  "(jsstring \<Rightarrow> jsstring) \<Rightarrow> TextInsightChunk list \<Rightarrow> World \<Rightarrow> World" where
  "textInsightRun t evs w = foldl (textInsightListener t) w evs"

definition visionCaptureRun ::
  "(jsstring \<Rightarrow> jsstring) \<Rightarrow> VisionCaptureChunk list \<Rightarrow> World \<Rightarrow> World" where
  "visionCaptureRun t evs w = foldl (visionCaptureListener t) w evs"

text \<open>
  The window shows what the vision-capture listener has accumulated: there is a current
  content, its original section is the accumulated text and its ranges are the
  listener's.
\<close>

definition contentInSync :: "World \<Rightarrow> bool" where
  "contentInSync w \<longleftrightarrow> currentContent (floatingWindow (store w)) \<noteq> None
     \<and> shownSections w original = Some (accumulatedText w)
     \<and> shownRanges w = aiRanges w"


section \<open>The pure reference machine of the floating-window state test\<close>

record FloatingWindowVM =
  vm_visible :: bool
  vm_pinned :: bool

definition showWindow_vm :: "FloatingWindowVM \<Rightarrow> FloatingWindowVM" where
  "showWindow_vm state = state\<lparr>vm_visible := True\<rparr>"

definition hideWindow_vm :: "FloatingWindowVM \<Rightarrow> FloatingWindowVM" where
  "hideWindow_vm state = state\<lparr>vm_visible := False\<rparr>"

definition togglePin_vm :: "FloatingWindowVM \<Rightarrow> FloatingWindowVM" where
  "togglePin_vm state = state\<lparr>vm_pinned := \<not> vm_pinned state\<rparr>"

definition onBlur :: "FloatingWindowVM \<Rightarrow> FloatingWindowVM" where
  "onBlur state = (if \<not> vm_pinned state then hideWindow_vm state else state)"

fun vm_step :: "FloatingWindowVM \<Rightarrow> Action \<Rightarrow> FloatingWindowVM" where
  "vm_step s Show = showWindow_vm s"
| "vm_step s Blur = onBlur s"
| "vm_step s TogglePin = togglePin_vm s"

definition vm_run :: "Action list \<Rightarrow> FloatingWindowVM \<Rightarrow> FloatingWindowVM" where
  "vm_run acts s = foldl vm_step s acts"

text \<open>The (visible, pinned) pair the test compares after every run.\<close>

definition vm_of :: "AppState \<Rightarrow> FloatingWindowVM" where
  "vm_of s = \<lparr>vm_visible = visible (floatingWindow s), vm_pinned = pinned (floatingWindow s)\<rparr>"

section \<open>Visibility and pinning\<close>

lemma vm_of_step: "vm_of (store_step s a) = vm_step (vm_of s) a"
  by (cases a)
     (simp_all add: vm_of_def showWindow_def handleBlur_def hideWindow_def togglePin_def
        showWindow_vm_def onBlur_def hideWindow_vm_def togglePin_vm_def)

text \<open>
  C6. \<open>togglePin\<close> negates \<open>pinned\<close> and changes nothing else: \<open>visible\<close>, the position,
  the current content and the audio state of the floating window are kept, and so is
  every component of the store outside the floating window.
\<close>

theorem togglePin_frame:
  "pinned (floatingWindow (togglePin s)) = (\<not> pinned (floatingWindow s))
   \<and> visible (floatingWindow (togglePin s)) = visible (floatingWindow s)
   \<and> position (floatingWindow (togglePin s)) = position (floatingWindow s)
   \<and> currentContent (floatingWindow (togglePin s)) = currentContent (floatingWindow s)
   \<and> audioState (floatingWindow (togglePin s)) = audioState (floatingWindow s)
   \<and> settings (togglePin s) = settings s
   \<and> app_locale (togglePin s) = app_locale s
   \<and> errorMessage (togglePin s) = errorMessage s
   \<and> podcastProgress (togglePin s) = podcastProgress s"
  by (simp add: togglePin_def)

theorem togglePin_frame_witness:
  "pinned (floatingWindow (togglePin initialAppState))
   \<and> \<not> visible (floatingWindow (togglePin initialAppState))
   \<and> \<not> pinned (floatingWindow (togglePin (togglePin initialAppState)))"
  using togglePin_frame [of initialAppState] togglePin_frame [of "togglePin initialAppState"]
  by (simp add: initialAppState_def initialFloatingWindow_def)

text \<open>
  C5. Let \<open>s\<close> be the state reached from the initial state (\<open>visible = false\<close>,
  \<open>pinned = false\<close>) by any sequence of show, blur and toggle-pin operations, and \<open>s'\<close>
  the state after one more blur. If \<open>s\<close> is unpinned, \<open>s'\<close> is not visible; if \<open>s\<close> is
  pinned, the blur changes nothing; hence a window visible in \<open>s\<close> is still visible in
  \<open>s'\<close> exactly when it is pinned at the moment of the blur.
\<close>

theorem blur_visible_iff_pinned:
  fixes acts :: "Action list"
  defines "s \<equiv> store_run acts initialAppState"
  defines "s' \<equiv> store_run (acts @ [Blur]) initialAppState"
  shows "(\<not> pinned (floatingWindow s) \<longrightarrow> \<not> visible (floatingWindow s'))
   \<and> (pinned (floatingWindow s) \<longrightarrow> s' = s)
   \<and> (visible (floatingWindow s) \<longrightarrow>
        (visible (floatingWindow s') \<longleftrightarrow> pinned (floatingWindow s)))
   \<and> pinned (floatingWindow s') = pinned (floatingWindow s)"
proof -
  have "s' = handleBlur s"
    by (simp add: s_def s'_def store_run_def)
  then show ?thesis
    by (simp add: handleBlur_def hideWindow_def)
qed

theorem blur_visible_iff_pinned_witness:
  "visible (floatingWindow (store_run [Show, TogglePin] initialAppState))
   \<and> pinned (floatingWindow (store_run [Show, TogglePin] initialAppState))
   \<and> visible (floatingWindow (store_run ([Show, TogglePin] @ [Blur]) initialAppState))
   \<and> visible (floatingWindow (store_run [TogglePin, Show, TogglePin] initialAppState))
   \<and> \<not> pinned (floatingWindow (store_run [TogglePin, Show, TogglePin] initialAppState))
   \<and> \<not> visible (floatingWindow (store_run ([TogglePin, Show, TogglePin] @ [Blur]) initialAppState))"
  using blur_visible_iff_pinned [of "[Show, TogglePin]"]
    blur_visible_iff_pinned [of "[TogglePin, Show, TogglePin]"]
  by (simp add: store_run_def showWindow_def togglePin_def initialAppState_def
      initialFloatingWindow_def)

text \<open>
  C8. For every sequence of show, blur and toggle-pin actions, run from any store state,
  the (visible, pinned) pair of the store equals the state the pure reference machine
  reaches from the same pair by the same actions.
\<close>

theorem store_refines_vm:
  "vm_of (store_run acts s) = vm_run acts (vm_of s)"
  unfolding store_run_def vm_run_def
  by (induction acts arbitrary: s) (simp_all add: vm_of_step)

theorem store_refines_vm_witness:
  "vm_of (store_run [Show, TogglePin, Blur, TogglePin, Blur] initialAppState)
     = \<lparr>vm_visible = False, vm_pinned = False\<rparr>
   \<and> vm_run [Show, TogglePin, Blur, TogglePin, Blur] (vm_of initialAppState)
     = \<lparr>vm_visible = False, vm_pinned = False\<rparr>"
  using store_refines_vm [of "[Show, TogglePin, Blur, TogglePin, Blur]" initialAppState]
  by (simp add: vm_run_def vm_of_def initialAppState_def initialFloatingWindow_def
      showWindow_vm_def onBlur_def hideWindow_vm_def togglePin_vm_def)

section \<open>Saving the audio artifact\<close>









section \<open>The retry-count field\<close>

lemma num_or_3: "num_or n (Num 3) = (if n = NaN \<or> n = Num 0 then Num 3 else n)"
  by (simp add: num_or_def num_falsy_def)

text \<open>
  C10. Whatever is entered in the retry-count field, the value saved (in the store, in
  the page's own settings and in the \<open>update_settings\<close> call) is \<open>Number(value) || 3\<close>: 3
  when the numeric value is 0 or NaN, the numeric value otherwise. So the saved retry
  count is never 0.
\<close>

theorem retryCount_never_zero:
  fixes Number :: "jsstring \<Rightarrow> jsnum" and ok :: bool and v :: jsstring and w :: World
  defines "w' \<equiv> retryCount_onChange Number ok v w"
  defines "saved \<equiv> (if Number v = NaN \<or> Number v = Num 0 then Num 3 else Number v)"
  shows "retryCount (settings (store w')) = saved
   \<and> retryCount (page_settings w') = saved
   \<and> invoked w' = invoked w @ [update_settings ((page_settings w)\<lparr>retryCount := saved\<rparr>)]
   \<and> saved \<noteq> Num 0 \<and> saved \<noteq> NaN"
  unfolding w'_def saved_def
  by (simp add: retryCount_onChange_def save_def Let_def updateSettings_def spreadSettings_def
      noSettingsFields_def num_or_3)

theorem retryCount_never_zero_witness:
  "retryCount (settings (store (retryCount_onChange (\<lambda>s. Num 0) True (js ''0'') initialWorld)))
     = Num 3
   \<and> retryCount (settings (store (retryCount_onChange (\<lambda>s. NaN) True (js ''abc'') initialWorld)))
     = Num 3
   \<and> retryCount (settings (store (retryCount_onChange (\<lambda>s. Num 7) True (js ''7'') initialWorld)))
     = Num 7"
  using retryCount_never_zero [of "\<lambda>s. Num 0" True "js ''0''" initialWorld]
    retryCount_never_zero [of "\<lambda>s. NaN" True "js ''abc''" initialWorld]
    retryCount_never_zero [of "\<lambda>s. Num 7" True "js ''7''" initialWorld]
  by simp

section \<open>Completing a drag selection\<close>

text \<open>
  C9. When a drag is completed (the overlay is dragging and holds a selection): if the
  rectangle is less than 10 wide or less than 10 high, \<open>handleMouseUp\<close> makes no backend
  call and clears the selection; otherwise it makes exactly one call, \<open>process_capture\<close>,
  whose region is the rectangle's corner and size multiplied by the device pixel ratio
  (by 1 when the ratio is falsy).
\<close>

theorem mouseUp_threshold:
  fixes ov :: Overlay and sel :: SelectionRect and devicePixelRatio :: real
  assumes "isDragging ov" and "selection ov = Some sel"
  defines "w \<equiv> \<bar>endX sel - startX sel\<bar>" and "h \<equiv> \<bar>endY sel - startY sel\<bar>"
  defines "x \<equiv> min (startX sel) (endX sel)" and "y \<equiv> min (startY sel) (endY sel)"
  defines "dpr \<equiv> (if devicePixelRatio = 0 then 1 else devicePixelRatio)"
  shows "(w < 10 \<or> h < 10 \<longrightarrow>
            overlay_invoked (handleMouseUp devicePixelRatio ov) = overlay_invoked ov
            \<and> selection (handleMouseUp devicePixelRatio ov) = None)
   \<and> (\<not> (w < 10 \<or> h < 10) \<longrightarrow>
            overlay_invoked (handleMouseUp devicePixelRatio ov) = overlay_invoked ov @
               [process_capture \<lparr>region_x = x * dpr, region_y = y * dpr,
                                 region_width = w * dpr, region_height = h * dpr\<rparr> True]
            \<and> capture_calls (overlay_invoked (handleMouseUp devicePixelRatio ov))
                = Suc (capture_calls (overlay_invoked ov)))"
  using assms
  by (simp add: handleMouseUp_def Let_def capture_calls_def is_process_capture_def)

theorem mouseUp_threshold_witness:
  "overlay_invoked (handleMouseUp 2 (handleMouseMove 105 300 (handleMouseDown 100 100 idleOverlay)))
     = []
   \<and> selection (handleMouseUp 2 (handleMouseMove 105 300 (handleMouseDown 100 100 idleOverlay)))
     = None
   \<and> overlay_invoked (handleMouseUp 2 (handleMouseMove 50 300 (handleMouseDown 100 100 idleOverlay)))
     = [process_capture \<lparr>region_x = 100, region_y = 200, region_width = 100,
                         region_height = 400\<rparr> True]"
  using mouseUp_threshold
          [of "handleMouseMove 105 300 (handleMouseDown 100 100 idleOverlay)"
              "\<lparr>startX = 100, startY = 100, endX = 105, endY = 300\<rparr>" 2]
        mouseUp_threshold
          [of "handleMouseMove 50 300 (handleMouseDown 100 100 idleOverlay)"
              "\<lparr>startX = 100, startY = 100, endX = 50, endY = 300\<rparr>" 2]
  by (simp add: handleMouseMove_def handleMouseDown_def idleOverlay_def)

section \<open>Provenance tiling\<close>

lemma mergeLoop_eq:
  "mergeLoop segs off ai ocr merged =
     \<lparr>mergedText = merged @ concat (map text_of segs),
      aiInferredRanges = ai @ segmentRanges True off segs,
      ocrRanges = ocr @ segmentRanges False off segs\<rparr>"
  by (induction segs arbitrary: off ai ocr merged) (simp_all add: Let_def)

lemma segmentRanges_bounds:
  "r \<in> set (segmentRanges b off segs) \<Longrightarrow>
   off \<le> r_start r \<and> r_start r < r_end r \<and> r_end r \<le> off + length (concat (map text_of segs))"
proof (induction segs arbitrary: off)
  case Nil
  then show ?case by simp
next
  case (Cons seg segs)
  from Cons.prems consider
    (hd) "r = \<lparr>r_start = off, r_end = off + length (text_of seg)\<rparr>" "length (text_of seg) > 0"
    | (tl) "r \<in> set (segmentRanges b (off + length (text_of seg)) segs)"
    by (auto split: if_splits)
  then show ?case
  proof cases
    case hd
    then show ?thesis by simp
  next
    case tl
    from Cons.IH [OF tl] show ?thesis by simp
  qed
qed

lemma segmentRanges_sorted:
  "sorted_wrt (\<lambda>a b. r_end a \<le> r_start b) (segmentRanges b off segs)"
proof (induction segs arbitrary: off)
  case Nil
  then show ?case by simp
next
  case (Cons seg segs)
  have "\<forall>r \<in> set (segmentRanges b (off + length (text_of seg)) segs).
          off + length (text_of seg) \<le> r_start r"
    using segmentRanges_bounds by blast
  with Cons.IH [of "off + length (text_of seg)"] show ?case
    by (simp add: sorted_wrt_append)
qed

lemma segmentRanges_cover:
  "length (filter (\<lambda>r. covers r i) (segmentRanges True off segs))
   + length (filter (\<lambda>r. covers r i) (segmentRanges False off segs))
   = (if off \<le> i \<and> i < off + length (concat (map text_of segs)) then 1 else 0)"
proof (induction segs arbitrary: off)
  case Nil
  then show ?case by simp
next
  case (Cons seg segs)
  show ?case
    using Cons.IH [of "off + length (text_of seg)"]
    by (cases "isAiInferred seg") (auto simp add: covers_def)
qed

lemma slice_middle: "slice (pre @ t @ post) (length pre) (length pre + length t) = t"
  by (simp add: slice_def)

lemma segmentRanges_slices:
  "map (slice_at (pre @ concat (map text_of segs) @ post)) (segmentRanges b (length pre) segs)
   = filter (\<lambda>t. t \<noteq> []) (map text_of (filter (\<lambda>s. isAiInferred s = b) segs))"
proof (induction segs arbitrary: pre)
  case Nil
  then show ?case by simp
next
  case (Cons seg segs)
  have "map (slice_at ((pre @ text_of seg) @ concat (map text_of segs) @ post))
          (segmentRanges b (length (pre @ text_of seg)) segs)
        = filter (\<lambda>t. t \<noteq> []) (map text_of (filter (\<lambda>s. isAiInferred s = b) segs))"
    by (rule Cons.IH)
  then have tl: "map (slice_at (pre @ text_of seg @ concat (map text_of segs) @ post))
          (segmentRanges b (length pre + length (text_of seg)) segs)
        = filter (\<lambda>t. t \<noteq> []) (map text_of (filter (\<lambda>s. isAiInferred s = b) segs))"
    by simp
  have hd: "slice_at (pre @ text_of seg @ concat (map text_of segs) @ post)
              \<lparr>r_start = length pre, r_end = length pre + length (text_of seg)\<rparr> = text_of seg"
    unfolding slice_at_def by (simp add: slice_def)
  show ?case using tl hd by auto
qed

lemma concat_filter_nonempty: "concat (filter (\<lambda>t. t \<noteq> []) xs) = concat xs"
  by (induction xs) simp_all

lemma sorted_wrt_starts:
  "\<forall>r \<in> set rs. r_start r < r_end r \<Longrightarrow> sorted_wrt (\<lambda>a b. r_end a \<le> r_start b) rs \<Longrightarrow>
   sorted (map r_start rs)"
proof (induction rs)
  case Nil
  then show ?case by simp
next
  case (Cons r rs)
  have "r_start r \<le> r_start x" if "x \<in> set rs" for x
  proof -
    have "r_start r < r_end r" using Cons.prems(1) by simp
    moreover have "r_end r \<le> r_start x" using Cons.prems(2) that by simp
    ultimately show ?thesis by linarith
  qed
  moreover have "sorted (map r_start rs)" using Cons by simp
  ultimately show ?case by simp
qed

text \<open>
  C1. For every list of segments, \<open>mergeSegments\<close> returns the concatenation of all
  segment texts as merged text; every position of the merged text lies in exactly one of
  the returned ranges (inferred and verbatim together: no gap, no overlap); every
  returned range is non-empty and ends within the text (a segment with empty text yields
  no range); the inferred ranges are sorted by start, each ending before the next one
  starts; the substrings of the merged text at the inferred ranges are, in order, the
  texts of the non-empty inferred segments, so that concatenated they are the
  concatenation of the inferred segments' texts in order.
\<close>

theorem mergeSegments_tiling:
  fixes segments :: "Segment list"
  defines "res \<equiv> mergeSegments segments"
  shows "mergedText res = concat (map text_of segments)
   \<and> (\<forall>i < length (mergedText res).
        length (filter (\<lambda>r. covers r i) (aiInferredRanges res @ ocrRanges res)) = 1)
   \<and> (\<forall>r \<in> set (aiInferredRanges res @ ocrRanges res).
        r_start r < r_end r \<and> r_end r \<le> length (mergedText res))
   \<and> sorted (map r_start (aiInferredRanges res))
   \<and> sorted_wrt (\<lambda>a b. r_end a \<le> r_start b) (aiInferredRanges res)
   \<and> map (slice_at (mergedText res)) (aiInferredRanges res)
       = filter (\<lambda>t. t \<noteq> []) (map text_of (filter isAiInferred segments))
   \<and> concat (map (slice_at (mergedText res)) (aiInferredRanges res))
       = concat (map text_of (filter isAiInferred segments))"
proof -
  have res: "res = \<lparr>mergedText = concat (map text_of segments),
                    aiInferredRanges = segmentRanges True 0 segments,
                    ocrRanges = segmentRanges False 0 segments\<rparr>"
    unfolding res_def mergeSegments_def mergeLoop_eq by simp
  have c1: "mergedText res = concat (map text_of segments)" by (simp add: res)
  have c2: "\<forall>i < length (mergedText res).
        length (filter (\<lambda>r. covers r i) (aiInferredRanges res @ ocrRanges res)) = 1"
    using segmentRanges_cover [of _ 0 segments] by (simp add: res)
  have b: "\<forall>r \<in> set (segmentRanges bb 0 segments).
        r_start r < r_end r \<and> r_end r \<le> length (concat (map text_of segments))" for bb
    using segmentRanges_bounds [of _ bb 0 segments] by simp
  have c3: "\<forall>r \<in> set (aiInferredRanges res @ ocrRanges res).
        r_start r < r_end r \<and> r_end r \<le> length (mergedText res)"
    using b [of True] b [of False] unfolding res by (simp add: ball_Un)
  have c5: "sorted_wrt (\<lambda>a b. r_end a \<le> r_start b) (aiInferredRanges res)"
    by (simp add: res segmentRanges_sorted)
  have c4: "sorted (map r_start (aiInferredRanges res))"
    using sorted_wrt_starts [OF _ c5] c3 by simp
  have "map (slice_at ([] @ concat (map text_of segments) @ [])) (segmentRanges True (length ([]::jsstring)) segments)
        = filter (\<lambda>t. t \<noteq> []) (map text_of (filter (\<lambda>s. isAiInferred s = True) segments))"
    by (rule segmentRanges_slices)
  then have c6: "map (slice_at (mergedText res)) (aiInferredRanges res)
       = filter (\<lambda>t. t \<noteq> []) (map text_of (filter isAiInferred segments))"
    by (simp add: res)
  have c7: "concat (map (slice_at (mergedText res)) (aiInferredRanges res))
       = concat (map text_of (filter isAiInferred segments))"
    unfolding c6 by (rule concat_filter_nonempty)
  from c1 c2 c3 c4 c5 c6 c7 show ?thesis by (intro conjI)
qed

theorem mergeSegments_tiling_witness:
  "mergedText (mergeSegments
      [\<lparr>text_of = js ''ab'', isAiInferred = False\<rparr>, \<lparr>text_of = [], isAiInferred = True\<rparr>,
       \<lparr>text_of = js ''cde'', isAiInferred = True\<rparr>, \<lparr>text_of = js ''f'', isAiInferred = False\<rparr>])
     = js ''abcdef''
   \<and> aiInferredRanges (mergeSegments
      [\<lparr>text_of = js ''ab'', isAiInferred = False\<rparr>, \<lparr>text_of = [], isAiInferred = True\<rparr>,
       \<lparr>text_of = js ''cde'', isAiInferred = True\<rparr>, \<lparr>text_of = js ''f'', isAiInferred = False\<rparr>])
     = [\<lparr>r_start = 2, r_end = 5\<rparr>]
   \<and> ocrRanges (mergeSegments
      [\<lparr>text_of = js ''ab'', isAiInferred = False\<rparr>, \<lparr>text_of = [], isAiInferred = True\<rparr>,
       \<lparr>text_of = js ''cde'', isAiInferred = True\<rparr>, \<lparr>text_of = js ''f'', isAiInferred = False\<rparr>])
     = [\<lparr>r_start = 0, r_end = 2\<rparr>, \<lparr>r_start = 5, r_end = 6\<rparr>]
   \<and> (3::nat) < length (js ''abcdef'')
   \<and> length (filter (\<lambda>r. covers r 3)
        ([\<lparr>r_start = 2, r_end = 5\<rparr>] @ [\<lparr>r_start = 0, r_end = 2\<rparr>, \<lparr>r_start = 5, r_end = 6\<rparr>])) = 1
   \<and> slice_at (js ''abcdef'') \<lparr>r_start = 2, r_end = 5\<rparr> = js ''cde''"
  using mergeSegments_tiling
    [of "[\<lparr>text_of = js ''ab'', isAiInferred = False\<rparr>, \<lparr>text_of = [], isAiInferred = True\<rparr>,
          \<lparr>text_of = js ''cde'', isAiInferred = True\<rparr>, \<lparr>text_of = js ''f'', isAiInferred = False\<rparr>]"]
  by (simp add: mergeSegments_def js_def covers_def slice_at_def slice_def)

section \<open>Complete sections\<close>

lemma trim_empty_iff: "trim v = [] \<longleftrightarrow> blank v"
proof -
  have "trim v = [] \<longleftrightarrow> (\<forall>x \<in> set (dropWhile is_white_space v). is_white_space x)"
    by (simp add: trim_def dropWhile_eq_Nil_conv)
  also have "\<dots> \<longleftrightarrow> dropWhile is_white_space v = []"
  proof
    assume a: "\<forall>x \<in> set (dropWhile is_white_space v). is_white_space x"
    show "dropWhile is_white_space v = []"
    proof (rule ccontr)
      assume n: "dropWhile is_white_space v \<noteq> []"
      then have "\<not> is_white_space (hd (dropWhile is_white_space v))" by (rule hd_dropWhile)
      moreover have "hd (dropWhile is_white_space v) \<in> set (dropWhile is_white_space v)"
        using n by simp
      ultimately show False using a by blast
    qed
  next
    assume "dropWhile is_white_space v = []"
    then show "\<forall>x \<in> set (dropWhile is_white_space v). is_white_space x"
      by (simp only: set_simps ball_empty)
  qed
  also have "\<dots> \<longleftrightarrow> blank v"
    by (simp add: blank_def dropWhile_eq_Nil_conv list_all_iff)
  finally show ?thesis .
qed

lemma all_sections: "(\<forall>k. P k) \<longleftrightarrow> list_all P REQUIRED_SECTIONS"
proof
  assume "list_all P REQUIRED_SECTIONS"
  then show "\<forall>k. P k"
    unfolding REQUIRED_SECTIONS_def
    by (intro allI, case_tac k) simp_all
qed (simp add: list_all_iff)

lemma validate_iff:
  "validateSectionsComplete sects \<longleftrightarrow> (\<forall>k. \<exists>v. sects k = Some v \<and> \<not> blank v)"
proof -
  have "(\<exists>v. sects k = Some v \<and> \<not> blank v)
        = (case sects k of None \<Rightarrow> False | Some v \<Rightarrow> length (trim v) > 0)" for k
    by (cases "sects k") (simp_all add: trim_empty_iff [symmetric])
  then show ?thesis
    unfolding validateSectionsComplete_def all_sections by simp
qed

lemma done_unconditional:
  fixes w :: World and t :: "jsstring \<Rightarrow> jsstring"
  defines "w' \<equiv> textInsightListener t w ti_done"
  shows "streamCompleted w' \<and> shownSections w' = shownSections w
     \<and> invoked w' =
         (case shownSections w original of
            None \<Rightarrow> invoked w
          | Some v \<Rightarrow>
              if v = [] then invoked w
              else invoked w @
                [save_query_record v
                   (case currentContent (floatingWindow (store w)) of
                      None \<Rightarrow> text_insight | Some c \<Rightarrow> source c)
                   (detectedLanguageRef w) (shownSections w)])"
  unfolding w'_def
  by (cases "currentContent (floatingWindow (store w))")
     (auto simp add: finishStream_def streamCompleted_def shownSections_def updateContent_def
        spreadContent_def noContentFields_def saveQueryRecord_def Let_def split: option.splits)

text \<open>
  C3, as the claim states it, fails: after a start event, one delta for the original
  section and the done event, the listener has ended the stream and saved the query
  record although five of the six sections are missing.
\<close>

theorem done_without_six_sections:
  "streamCompleted (textInsightRun t_sample
      [ti_start None, ti_delta (Some original) (Some (js ''hi'')), ti_done] initialWorld)
   \<and> \<not> validateSectionsComplete (shownSections (textInsightRun t_sample
      [ti_start None, ti_delta (Some original) (Some (js ''hi'')), ti_done] initialWorld))
   \<and> invoked (textInsightRun t_sample
      [ti_start None, ti_delta (Some original) (Some (js ''hi'')), ti_done] initialWorld)
      = [save_query_record (js ''hi'') text_insight None [original \<mapsto> js ''hi'']]"
  by (simp add: textInsightRun_def initialWorld_def initialAppState_def initialFloatingWindow_def
      finishStream_def streamCompleted_def shownSections_def updateContent_def showWindow_def
      clearError_def clearContent_def setStreamingSection_def
      spreadContent_def noContentFields_def saveQueryRecord_def Let_def js_def
      validateSectionsComplete_def REQUIRED_SECTIONS_def spread_def)

text \<open>
  C3, amended. \<open>validateSectionsComplete\<close> returns true if and only if each of the six
  sections is present and not blank (neither empty nor white space only). The done case
  of the text-insight listener does not apply this check: whatever the sections hold, it
  ends the stream, leaves the sections as they are, and issues \<open>save_query_record\<close>
  exactly when the original section is present and non-empty.
\<close>

theorem sections_complete_and_done:
  fixes w :: World and t :: "jsstring \<Rightarrow> jsstring" and sects :: Sections
  defines "w' \<equiv> textInsightListener t w ti_done"
  shows "(validateSectionsComplete sects \<longleftrightarrow> (\<forall>k. \<exists>v. sects k = Some v \<and> \<not> blank v))
     \<and> streamCompleted w' \<and> shownSections w' = shownSections w
     \<and> invoked w' =
         (case shownSections w original of
            None \<Rightarrow> invoked w
          | Some v \<Rightarrow>
              if v = [] then invoked w
              else invoked w @
                [save_query_record v
                   (case currentContent (floatingWindow (store w)) of
                      None \<Rightarrow> text_insight | Some c \<Rightarrow> source c)
                   (detectedLanguageRef w) (shownSections w)])"
  unfolding w'_def using validate_iff [of sects] done_unconditional [of t w] by blast

theorem sections_complete_and_done_witness:
  "\<not> validateSectionsComplete
       [original \<mapsto> js ''a'', wordByWord \<mapsto> js ''b'', structure_key \<mapsto> js ''c'',
        translation \<mapsto> js ''  '', colloquial \<mapsto> js ''e'', simplified \<mapsto> js ''f'']
   \<and> blank (js ''  '')
   \<and> streamCompleted (textInsightListener t_sample initialWorld ti_done)
   \<and> shownSections (textInsightListener t_sample initialWorld ti_done) = Map.empty"
proof -
  let ?S = "[original \<mapsto> js ''a'', wordByWord \<mapsto> js ''b'', structure_key \<mapsto> js ''c'',
             translation \<mapsto> js ''  '', colloquial \<mapsto> js ''e'', simplified \<mapsto> js ''f'']"
  note th = sections_complete_and_done [of ?S t_sample initialWorld]
  note th1 = th [THEN conjunct1]
  note th2 = th [THEN conjunct2, THEN conjunct1]
  note th3 = th [THEN conjunct2, THEN conjunct2, THEN conjunct1]
  have b: "blank (js ''  '')"
    by (simp add: blank_def js_def is_white_space_def)
  have v: "\<not> validateSectionsComplete ?S"
  proof
    assume "validateSectionsComplete ?S"
    with th1 have "\<forall>k. \<exists>v. ?S k = Some v \<and> \<not> blank v" by (rule iffD1)
    then obtain v where "?S translation = Some v" and nb: "\<not> blank v" by blast
    then have "v = js ''  ''" by simp
    with b nb show False by simp
  qed
  have "shownSections initialWorld = Map.empty"
    by (simp add: shownSections_def initialWorld_def initialAppState_def
        initialFloatingWindow_def)
  with th3 have "shownSections (textInsightListener t_sample initialWorld ti_done) = Map.empty"
    by (rule trans)
  with v b th2 show ?thesis by (intro conjI)
qed

section \<open>Resolving error messages\<close>

lemma js_includes_sublist: "js_includes s k \<longleftrightarrow> sublist k s"
  by (induction s) (simp_all add: sublist_Cons_right)

lemma kind_identifier_nonempty: "kind_identifier k \<noteq> []"
  by (cases k) (simp_all add: js_def)

lemma errorKeyMap_kinds: "errorKeyMap = map (\<lambda>k. (kind_identifier k, message_key k)) all_kinds"
  by (simp add: errorKeyMap_def all_kinds_def)

lemma firstMatch_none:
  "firstMatch entries c = None \<longleftrightarrow> (\<forall>(key, v) \<in> set entries. \<not> js_includes c key)"
  by (induction entries c rule: firstMatch.induct) auto

lemma firstMatch_first:
  "\<forall>(key, v) \<in> set pre. \<not> js_includes c key \<Longrightarrow> js_includes c key' \<Longrightarrow>
   firstMatch (pre @ (key', v') # post) c = Some v'"
  by (induction pre) auto

lemma all_kinds_split: "all_kinds = earlier k @ k # tl (dropWhile (\<lambda>k'. k' \<noteq> k) all_kinds)"
  by (cases k) (simp_all add: all_kinds_def earlier_def)

lemma resolve_kind:
  assumes "js_includes c (kind_identifier k)"
      and "\<forall>k' \<in> set (earlier k). \<not> js_includes c (kind_identifier k')"
  shows "resolveErrorMessage (Some c) t = t (message_key k)"
proof -
  have ne: "c \<noteq> []" using assms(1) kind_identifier_nonempty [of k] by (cases c) auto
  let ?f = "\<lambda>k. (kind_identifier k, message_key k)"
  have split: "errorKeyMap = map ?f (earlier k) @ ?f k # map ?f (tl (dropWhile (\<lambda>k'. k' \<noteq> k) all_kinds))"
    by (subst errorKeyMap_kinds, subst all_kinds_split [of k]) simp
  have "\<forall>(key, v) \<in> set (map ?f (earlier k)). \<not> js_includes c key"
    using assms(2) by auto
  from firstMatch_first [OF this assms(1)]
  have "firstMatch errorKeyMap c = Some (message_key k)"
    by (subst split) blast
  with ne show ?thesis by (simp add: resolveErrorMessage_def)
qed

lemma resolve_unknown:
  assumes "c \<noteq> []" and "\<forall>k. \<not> js_includes c (kind_identifier k)"
  shows "resolveErrorMessage (Some c) t = c"
proof -
  have "firstMatch errorKeyMap c = None"
    unfolding firstMatch_none errorKeyMap_kinds using assms(2) by auto
  with assms(1) show ?thesis by (simp add: resolveErrorMessage_def)
qed

lemma resolve_exact: "resolveErrorMessage (Some (kind_identifier k)) t = t (message_key k)"
proof (rule resolve_kind)
  show "js_includes (kind_identifier k) (kind_identifier k)"
    by (simp add: js_includes_sublist)
  show "\<forall>k' \<in> set (earlier k). \<not> js_includes (kind_identifier k) (kind_identifier k')"
    by (cases k; simp add: js_def earlier_def all_kinds_def)
qed

text \<open>
  C4, as the claim states it, fails: a payload that names no known error identifier is
  shown to the user verbatim.
\<close>

theorem raw_payload_returned:
  "resolveErrorMessage (Some (js ''HTTP 500: upstream failed'')) t_sample
     = js ''HTTP 500: upstream failed''"
  by (simp add: resolveErrorMessage_def errorKeyMap_def js_def)

text \<open>
  C4, amended. An absent or empty payload resolves to the message of NetworkTimeout. A
  payload in which the identifier of a kind occurs, and no identifier of a kind listed
  before it in the table, resolves to that kind's message; in particular the payload
  that is exactly a kind's identifier does. A non-empty payload in which no identifier
  occurs is returned as it is.
\<close>

theorem resolveErrorMessage_table:
  "resolveErrorMessage None t = t (message_key NetworkTimeout)
   \<and> resolveErrorMessage (Some []) t = t (message_key NetworkTimeout)
   \<and> (js_includes c (kind_identifier k)
        \<and> (\<forall>k' \<in> set (earlier k). \<not> js_includes c (kind_identifier k'))
        \<longrightarrow> resolveErrorMessage (Some c) t = t (message_key k))
   \<and> resolveErrorMessage (Some (kind_identifier k)) t = t (message_key k)
   \<and> (c \<noteq> [] \<and> (\<forall>k'. \<not> js_includes c (kind_identifier k'))
        \<longrightarrow> resolveErrorMessage (Some c) t = c)"
proof (intro conjI impI)
  show "resolveErrorMessage None t = t (message_key NetworkTimeout)"
    by (simp add: resolveErrorMessage_def)
  show "resolveErrorMessage (Some []) t = t (message_key NetworkTimeout)"
    by (simp add: resolveErrorMessage_def)
  show "resolveErrorMessage (Some (kind_identifier k)) t = t (message_key k)"
    by (rule resolve_exact)
next
  assume "js_includes c (kind_identifier k)
          \<and> (\<forall>k' \<in> set (earlier k). \<not> js_includes c (kind_identifier k'))"
  then show "resolveErrorMessage (Some c) t = t (message_key k)"
    using resolve_kind by blast
next
  assume "c \<noteq> [] \<and> (\<forall>k'. \<not> js_includes c (kind_identifier k'))"
  then show "resolveErrorMessage (Some c) t = c"
    using resolve_unknown by blast
qed

theorem resolveErrorMessage_table_witness:
  "js_includes (js ''NetworkTimeout: connect'') (kind_identifier NetworkTimeout)
   \<and> \<not> js_includes (js ''NetworkTimeout: connect'') (kind_identifier InvalidApiKey)
   \<and> \<not> js_includes (js ''NetworkTimeout: connect'') (kind_identifier InsufficientBalance)
   \<and> resolveErrorMessage (Some (js ''NetworkTimeout: connect'')) t_sample = js ''Network timeout''
   \<and> resolveErrorMessage (Some (js ''PermissionDenied'')) t_sample = js ''Permission denied''"
  using resolveErrorMessage_table [of t_sample "js ''NetworkTimeout: connect''" NetworkTimeout]
    resolveErrorMessage_table [of t_sample "js ''NetworkTimeout: connect''" PermissionDenied]
  by (simp add: js_def earlier_def all_kinds_def t_sample_def)

section \<open>The two branches of a vision-capture run\<close>


lemma aiFragments_append: "aiFragments (xs @ ys) = aiFragments xs @ aiFragments ys"
  by (induction xs rule: aiFragments.induct) simp_all

lemma aiFragments_nonempty: "f \<in> set (aiFragments evs) \<Longrightarrow> f \<noteq> []"
  by (induction evs rule: aiFragments.induct) (auto split: if_splits)

lemma aiFragments_mem:
  "f \<in> set (aiFragments evs) \<longleftrightarrow> f \<noteq> [] \<and> vc_ai_completion (Some f) \<in> set evs"
  by (induction evs rule: aiFragments.induct) (auto split: if_splits)

lemma aiFragments_none: "\<forall>e \<in> set evs. \<not> is_ai_completion e \<Longrightarrow> aiFragments evs = []"
  by (induction evs rule: aiFragments.induct) auto

lemma fragmentRanges_append:
  "fragmentRanges off (xs @ ys)
   = fragmentRanges off xs @ fragmentRanges (off + length (concat xs)) ys"
  by (induction xs arbitrary: off) (simp_all add: add.assoc)

lemma step_ocr:
  "contentInSync (visionCaptureListener t w (vc_ocr_result content))
   \<and> accumulatedText (visionCaptureListener t w (vc_ocr_result content))
       = (case content of None \<Rightarrow> [] | Some c \<Rightarrow> c)
   \<and> aiRanges (visionCaptureListener t w (vc_ocr_result content)) = []"
  by (simp add: contentInSync_def shownSections_def shownRanges_def Let_def showWindow_def
      updateContent_def clearError_def clearContent_def spreadContent_def spread_def)

lemma step_other:
  assumes "\<not> is_ocr_result e" and "contentInSync w"
  shows "contentInSync (visionCaptureListener t w e)
   \<and> accumulatedText (visionCaptureListener t w e) = accumulatedText w @ concat (aiFragments [e])
   \<and> aiRanges (visionCaptureListener t w e)
       = aiRanges w @ fragmentRanges (length (accumulatedText w)) (aiFragments [e])"
proof (cases e)
  case (vc_ocr_result x1)
  with assms show ?thesis by simp
next
  case (vc_ai_completion content)
  with assms(2) show ?thesis
    by (cases content)
       (auto simp add: contentInSync_def shownSections_def shownRanges_def Let_def
         updateContent_def spreadContent_def spread_def noContentFields_def split: option.splits)
next
  case (vc_analysis_delta content)
  with assms(2) show ?thesis
    by (cases content)
       (auto simp add: contentInSync_def shownSections_def shownRanges_def setStreamingSection_def
         split: option.splits)
next
  case vc_done
  with assms(2) show ?thesis
    by (auto simp add: contentInSync_def shownSections_def shownRanges_def finishStream_def Let_def
         saveQueryRecord_def updateContent_def spreadContent_def spread_def noContentFields_def
         split: option.splits)
next
  case (vc_error content)
  with assms(2) show ?thesis
    by (auto simp add: contentInSync_def shownSections_def shownRanges_def failStream_def setError_def
         updateContent_def spreadContent_def spread_def noContentFields_def
         split: option.splits)
qed

lemma run_other:
  assumes "\<forall>e \<in> set evs. \<not> is_ocr_result e" and "contentInSync w"
  shows "contentInSync (visionCaptureRun t evs w)
   \<and> accumulatedText (visionCaptureRun t evs w) = accumulatedText w @ concat (aiFragments evs)
   \<and> aiRanges (visionCaptureRun t evs w)
       = aiRanges w @ fragmentRanges (length (accumulatedText w)) (aiFragments evs)"
  using assms
proof (induction evs arbitrary: w)
  case Nil
  then show ?case by (simp add: visionCaptureRun_def)
next
  case (Cons e evs)
  let ?w1 = "visionCaptureListener t w e"
  have e: "\<not> is_ocr_result e" and rest: "\<forall>e \<in> set evs. \<not> is_ocr_result e"
    using Cons.prems(1) by simp_all
  note s = step_other [OF e Cons.prems(2), of t]
  note ih = Cons.IH [OF rest s [THEN conjunct1]]
  have run: "visionCaptureRun t (e # evs) w = visionCaptureRun t evs ?w1"
    by (simp add: visionCaptureRun_def)
  have fr: "aiFragments (e # evs) = aiFragments [e] @ aiFragments evs"
    using aiFragments_append [of "[e]" evs] by simp
  show ?case
    unfolding run fr using ih s
    by (simp add: fragmentRanges_append)
qed


lemma fragmentRanges_start: "r \<in> set (fragmentRanges off fs) \<Longrightarrow> off \<le> r_start r"
proof (induction fs arbitrary: off)
  case Nil
  then show ?case by simp
next
  case (Cons f fs)
  from Cons.prems have "r_start r = off \<or> r \<in> set (fragmentRanges (off + length f) fs)"
    by auto
  then show ?case using Cons.IH [of "off + length f"] by auto
qed

lemma fragmentRanges_nonempty:
  "r \<in> set (fragmentRanges off fs) \<Longrightarrow> \<forall>f \<in> set fs. f \<noteq> [] \<Longrightarrow> r_start r < r_end r"
  by (induction fs arbitrary: off) auto

lemma fragmentRanges_sorted:
  "sorted_wrt (\<lambda>a b. r_end a \<le> r_start b) (fragmentRanges off fs)"
proof (induction fs arbitrary: off)
  case Nil
  then show ?case by simp
next
  case (Cons f fs)
  have "\<forall>r \<in> set (fragmentRanges (off + length f) fs). off + length f \<le> r_start r"
    using fragmentRanges_start by blast
  with Cons.IH [of "off + length f"] show ?case by simp
qed

lemma fragmentRanges_slices:
  "map (slice_at (pre @ concat fs @ post)) (fragmentRanges (length pre) fs) = fs"
proof (induction fs arbitrary: pre)
  case Nil
  then show ?case by simp
next
  case (Cons f fs)
  have "map (slice_at ((pre @ f) @ concat fs @ post)) (fragmentRanges (length (pre @ f)) fs) = fs"
    by (rule Cons.IH)
  then have tl: "map (slice_at (pre @ f @ concat fs @ post))
                   (fragmentRanges (length pre + length f) fs) = fs"
    by simp
  have hd: "slice_at (pre @ f @ concat fs @ post)
              \<lparr>r_start = length pre, r_end = length pre + length f\<rparr> = f"
    unfolding slice_at_def by (simp add: slice_def)
  show ?case using tl hd by simp
qed

lemma fragmentRanges_empty_iff: "fragmentRanges off fs = [] \<longleftrightarrow> fs = []"
  by (cases fs) simp_all

lemma no_overlap_after: "r_end a \<le> r_start b \<Longrightarrow> \<not> rangesOverlap a b"
  by (simp add: rangesOverlap_def)

lemma run_from_ocr:
  fixes t :: "jsstring \<Rightarrow> jsstring" and w :: World and content :: "jsstring option"
    and tail :: "VisionCaptureChunk list"
  assumes "\<forall>e \<in> set tail. \<not> is_ocr_result e"
  defines "ocr \<equiv> (case content of None \<Rightarrow> [] | Some c \<Rightarrow> c)"
  defines "w' \<equiv> visionCaptureRun t (vc_ocr_result content # tail) w"
  shows "shownSections w' original = Some (ocr @ concat (aiFragments tail))
    \<and> shownRanges w' = fragmentRanges (length ocr) (aiFragments tail)
    \<and> aiRanges w' = fragmentRanges (length ocr) (aiFragments tail)"
proof -
  let ?w1 = "visionCaptureListener t w (vc_ocr_result content)"
  have run: "w' = visionCaptureRun t tail ?w1"
    by (simp add: w'_def visionCaptureRun_def)
  note o = step_ocr [of t w content]
  note r = run_other [OF assms(1) o [THEN conjunct1], of t]
  from r o show ?thesis
    unfolding run ocr_def contentInSync_def by simp
qed

text \<open>
  C2. Take a vision-capture run: an \<open>ocr_result\<close> event followed by events none of
  which is a further \<open>ocr_result\<close> (a later one starts the next run), handled from any
  state of the window. If the run has no \<open>ai_completion\<close> event, the original text
  shown at the end is the OCR text and there are no inferred ranges. If it has an
  \<open>ai_completion\<close> event with non-empty content, the inferred ranges shown at the end are
  not empty; the original text is the OCR text followed by the non-empty fragments; the
  ranges are, in order, exactly the places of these fragments in it; every range is
  non-empty, starts at or after the end of the OCR text and so does not overlap the OCR
  prefix; and no two of the ranges overlap.
\<close>

theorem visionCapture_branches:
  fixes t :: "jsstring \<Rightarrow> jsstring" and w :: World and content :: "jsstring option"
    and tail :: "VisionCaptureChunk list"
  assumes one_run: "\<forall>e \<in> set tail. \<not> is_ocr_result e"
  defines "ocr \<equiv> (case content of None \<Rightarrow> [] | Some c \<Rightarrow> c)"
  defines "w' \<equiv> visionCaptureRun t (vc_ocr_result content # tail) w"
  shows "((\<forall>e \<in> set tail. \<not> is_ai_completion e) \<longrightarrow>
            shownSections w' original = Some ocr \<and> shownRanges w' = [] \<and> aiRanges w' = [])
    \<and> ((\<exists>c. c \<noteq> [] \<and> vc_ai_completion (Some c) \<in> set tail) \<longrightarrow>
            shownRanges w' \<noteq> [] \<and> aiRanges w' = shownRanges w'
          \<and> shownSections w' original = Some (ocr @ concat (aiFragments tail))
          \<and> map (slice_at (ocr @ concat (aiFragments tail))) (shownRanges w') = aiFragments tail
          \<and> (\<forall>r \<in> set (shownRanges w').
                r_start r < r_end r \<and> length ocr \<le> r_start r
                \<and> \<not> rangesOverlap r \<lparr>r_start = 0, r_end = length ocr\<rparr>)
          \<and> sorted_wrt (\<lambda>a b. r_end a \<le> r_start b) (shownRanges w')
          \<and> (\<forall>i j. i < j \<and> j < length (shownRanges w') \<longrightarrow>
                \<not> rangesOverlap (shownRanges w' ! i) (shownRanges w' ! j)))"
proof (intro conjI impI)
  note r = run_from_ocr [OF one_run, of t content w, folded ocr_def w'_def]
  let ?fs = "aiFragments tail"
  let ?rs = "fragmentRanges (length ocr) ?fs"
  have sh: "shownRanges w' = ?rs" and ai: "aiRanges w' = ?rs"
    and tx: "shownSections w' original = Some (ocr @ concat ?fs)"
    using r by simp_all
  {
    assume "\<forall>e \<in> set tail. \<not> is_ai_completion e"
    then have "?fs = []" by (rule aiFragments_none)
    with sh ai tx show "shownSections w' original = Some ocr" "shownRanges w' = []" "aiRanges w' = []"
      by simp_all
  }
  {
    assume "\<exists>c. c \<noteq> [] \<and> vc_ai_completion (Some c) \<in> set tail"
    then obtain c where "c \<in> set ?fs" using aiFragments_mem by blast
    then have ne: "?fs \<noteq> []" by auto
    show "shownRanges w' \<noteq> []" using ne sh by (simp add: fragmentRanges_empty_iff)
    show "aiRanges w' = shownRanges w'" using sh ai by simp
    show "shownSections w' original = Some (ocr @ concat ?fs)" by (rule tx)
    have "map (slice_at (ocr @ concat ?fs @ [])) (fragmentRanges (length ocr) ?fs) = ?fs"
      by (rule fragmentRanges_slices)
    then show "map (slice_at (ocr @ concat ?fs)) (shownRanges w') = ?fs"
      using sh by simp
    show "\<forall>r \<in> set (shownRanges w').
            r_start r < r_end r \<and> length ocr \<le> r_start r
            \<and> \<not> rangesOverlap r \<lparr>r_start = 0, r_end = length ocr\<rparr>"
    proof
      fix r assume "r \<in> set (shownRanges w')"
      then have m: "r \<in> set ?rs" using sh by simp
      have a: "r_start r < r_end r"
        using fragmentRanges_nonempty [OF m] aiFragments_nonempty by blast
      have b: "length ocr \<le> r_start r" using fragmentRanges_start [OF m] .
      from a b show "r_start r < r_end r \<and> length ocr \<le> r_start r
            \<and> \<not> rangesOverlap r \<lparr>r_start = 0, r_end = length ocr\<rparr>"
        by (simp add: rangesOverlap_def)
    qed
    show s: "sorted_wrt (\<lambda>a b. r_end a \<le> r_start b) (shownRanges w')"
      using sh fragmentRanges_sorted by simp
    show "\<forall>i j. i < j \<and> j < length (shownRanges w') \<longrightarrow>
            \<not> rangesOverlap (shownRanges w' ! i) (shownRanges w' ! j)"
      using s no_overlap_after by (auto simp add: sorted_wrt_iff_nth_less)
  }
qed

theorem visionCapture_branches_witness:
  "shownSections (visionCaptureRun t_sample
      [vc_ocr_result (Some (js ''ab'')), vc_analysis_delta (Some (js ''x'')), vc_done]
      initialWorld) original = Some (js ''ab'')
   \<and> shownRanges (visionCaptureRun t_sample
      [vc_ocr_result (Some (js ''ab'')), vc_analysis_delta (Some (js ''x'')), vc_done]
      initialWorld) = []
   \<and> shownSections (visionCaptureRun t_sample
      [vc_ocr_result (Some (js ''ab'')), vc_ai_completion (Some (js ''cd'')),
       vc_ai_completion (Some []), vc_ai_completion (Some (js ''e'')), vc_done]
      initialWorld) original = Some (js ''abcde'')
   \<and> shownRanges (visionCaptureRun t_sample
      [vc_ocr_result (Some (js ''ab'')), vc_ai_completion (Some (js ''cd'')),
       vc_ai_completion (Some []), vc_ai_completion (Some (js ''e'')), vc_done]
      initialWorld) = [\<lparr>r_start = 2, r_end = 4\<rparr>, \<lparr>r_start = 4, r_end = 5\<rparr>]"
proof -
  let ?t1 = "[vc_analysis_delta (Some (js ''x'')), vc_done]"
  let ?t2 = "[vc_ai_completion (Some (js ''cd'')), vc_ai_completion (Some []),
              vc_ai_completion (Some (js ''e'')), vc_done]"
  have h1: "\<forall>e \<in> set ?t1. \<not> is_ocr_result e" by simp
  have h2: "\<forall>e \<in> set ?t2. \<not> is_ocr_result e" by simp
  have a1: "\<forall>e \<in> set ?t1. \<not> is_ai_completion e" by simp
  have a2: "\<exists>c. c \<noteq> [] \<and> vc_ai_completion (Some c) \<in> set ?t2"
    by (rule exI [of _ "js ''e''"]) (simp add: js_def)
  note th1 = visionCapture_branches [OF h1, of t_sample "Some (js ''ab'')" initialWorld,
      THEN conjunct1, THEN mp, OF a1]
  note th2 = visionCapture_branches [OF h2, of t_sample "Some (js ''ab'')" initialWorld,
      THEN conjunct2, THEN mp, OF a2]
  have fr: "aiFragments ?t2 = [js ''cd'', js ''e'']" by (simp add: js_def)
  have c1: "shownSections (visionCaptureRun t_sample (vc_ocr_result (Some (js ''ab'')) # ?t1)
              initialWorld) original = Some (js ''ab'')"
    and c2: "shownRanges (visionCaptureRun t_sample (vc_ocr_result (Some (js ''ab'')) # ?t1)
              initialWorld) = []"
    using th1 by simp_all
  have c3: "shownSections (visionCaptureRun t_sample (vc_ocr_result (Some (js ''ab'')) # ?t2)
              initialWorld) original = Some (js ''abcde'')"
    using th2 [THEN conjunct2, THEN conjunct2, THEN conjunct1] unfolding fr
    by (simp add: js_def)
  have c4: "shownRanges (visionCaptureRun t_sample (vc_ocr_result (Some (js ''ab'')) # ?t2)
              initialWorld) = [\<lparr>r_start = 2, r_end = 4\<rparr>, \<lparr>r_start = 4, r_end = 5\<rparr>]"
    by (simp add: visionCaptureRun_def shownRanges_def initialWorld_def initialAppState_def
        initialFloatingWindow_def Let_def showWindow_def updateContent_def clearError_def
        clearContent_def spreadContent_def spread_def noContentFields_def finishStream_def
        saveQueryRecord_def js_def)
  from c1 c2 c3 c4 show ?thesis by (intro conjI)
qed

end
